theory Spec2Isabelle
  imports Complex_Main
begin

unbundle bit_operations_syntax

section \<open>The HID device, as the configurator sees it\<close>

text \<open>
  The program talks to the keyboard through the \<open>hid\<close> package. A handle is modelled by
  the calls it has received and by a script of what the device will do next:
  \<^item> \<open>writes\<close>: every report handed to \<open>device.write\<close>, oldest first (also a report
    whose write then raised);
  \<^item> \<open>wscript\<close>: the outcome of the coming \<open>write\<close> calls (\<open>True\<close>: accepted,
    \<open>False\<close>: raises); once exhausted every write is accepted;
  \<^item> \<open>polls\<close>: the outcome of the coming \<open>read(32)\<close> calls; once exhausted every read
    returns no data.
  Python integers are \<open>int\<close>; a report is a list of them.
\<close>

datatype timeout_msg = ChunkNotAcknowledged nat | CompletionNotAcknowledged

datatype exn = HIDException | ValueError | AttributeError | TimeoutError timeout_msg

datatype poll = Data "int list" | ReadFails

record hid =
  hid_path :: string
  writes :: "int list list"
  wscript :: "bool list"
  polls :: "poll list"

definition device_write :: "int list \<Rightarrow> hid \<Rightarrow> (exn + unit) \<times> hid" where
  "device_write report d =
     (case wscript d of
        [] \<Rightarrow> (Inr (), d\<lparr>writes := writes d @ [report]\<rparr>)
      | ok # rest \<Rightarrow>
          (if ok then (Inr (), d\<lparr>writes := writes d @ [report], wscript := rest\<rparr>)
           else (Inl HIDException, d\<lparr>writes := writes d @ [report], wscript := rest\<rparr>)))"

definition device_read :: "nat \<Rightarrow> hid \<Rightarrow> (exn + int list) \<times> hid" where
  "device_read n d =
     (case polls d of
        [] \<Rightarrow> (Inr [], d)
      | Data bs # rest \<Rightarrow> (Inr (take n bs), d\<lparr>polls := rest\<rparr>)
      | ReadFails # rest \<Rightarrow> (Inl HIDException, d\<lparr>polls := rest\<rparr>))"

text \<open>
  \<open>bytes(command)\<close>: raises \<open>ValueError\<close> unless every element is in \<open>range(0, 256)\<close>.
\<close>

definition to_bytes :: "int list \<Rightarrow> exn + int list" where
  "to_bytes command =
     (if list_all (\<lambda>x. 0 \<le> x \<and> x < 256) command then Inr command else Inl ValueError)"

subsection \<open>read_with_timeout\<close>

text \<open>
  The polling loop of \<open>read_with_timeout\<close>. Time is counted in milliseconds and only
  \<open>time.sleep(0.01)\<close> lets it pass, so \<open>elapsed\<close> is \<open>time.time() - start_time\<close>. A read
  that raises is logged and polled again, as an empty read is.
\<close>

function read_loop :: "nat \<Rightarrow> nat \<Rightarrow> hid \<Rightarrow> int list option \<times> hid" where
  "read_loop elapsed timeout d =
     (if elapsed < timeout then
        (case device_read 32 d of
           (Inr response, d1) \<Rightarrow>
             (if response \<noteq> [] then (Some response, d1)
              else read_loop (elapsed + 10) timeout d1)
         | (Inl e, d1) \<Rightarrow> read_loop (elapsed + 10) timeout d1)
      else (None, d))"
  by pat_completeness auto
termination
  by (relation "measure (\<lambda>(elapsed, timeout, d). timeout - elapsed)") auto

declare read_loop.simps [simp del]

definition read_with_timeout :: "nat \<Rightarrow> hid \<Rightarrow> int list option \<times> hid" where
  "read_with_timeout timeout d = read_loop 0 timeout d"

section \<open>Protocol constants\<close>

definition VIA_COMMAND_OLED :: int where
  "VIA_COMMAND_OLED = 0x40"

definition VIA_COMMAND_GET_PROTOCOL_VERSION :: int where
  "VIA_COMMAND_GET_PROTOCOL_VERSION = 0x01"

section \<open>get_protocol_version\<close>

text \<open>
  \<open>self.device\<close> may be \<open>None\<close>; then \<open>self.device.write\<close> raises \<open>AttributeError\<close>,
  which the function catches like any other exception.
\<close>

definition version_command :: "int list" where
  "version_command = [0x00, VIA_COMMAND_GET_PROTOCOL_VERSION] @ replicate 30 0"

definition get_protocol_version :: "hid option \<Rightarrow> int option \<times> hid option" where
  "get_protocol_version dev =
     (case dev of
        None \<Rightarrow> (None, None)
      | Some d \<Rightarrow>
          (case to_bytes version_command of
             Inl e \<Rightarrow> (None, Some d)
           | Inr command \<Rightarrow>
               (case device_write command d of
                  (Inl e, d1) \<Rightarrow> (None, Some d1)
                | (Inr u, d1) \<Rightarrow>
                    (case read_with_timeout 1000 d1 of
                       (None, d2) \<Rightarrow> (None, Some d2)
                     | (Some response, d2) \<Rightarrow>
                         (if length response \<ge> 3 then (Some (response ! 2), Some d2)
                          else (None, Some d2))))))"

section \<open>send_to_oled\<close>

subsection \<open>Packing the pixels\<close>

text \<open>
  The inner loop \<open>for bit in range(8)\<close> on the group that starts at pixel \<open>i\<close>, and the
  outer loop \<open>for i in range(0, len(pixels), 8)\<close>.
\<close>

definition pack_byte :: "int list \<Rightarrow> nat \<Rightarrow> int" where
  "pack_byte pixels i =
     foldl (\<lambda>byte bit.
              if i + bit < length pixels
              then byte OR push_bit (7 - bit) (of_bool (pixels ! (i + bit) > 0))
              else byte)
       0 [0..<8]"

definition pack :: "int list \<Rightarrow> int list" where
  "pack pixels = map (\<lambda>k. pack_byte pixels (8 * k)) [0..<(length pixels + 7) div 8]"

subsection \<open>Building the reports\<close>

text \<open>The loop \<open>while len(command) < 32: command.append(0)\<close>.\<close>

function pad32 :: "int list \<Rightarrow> int list" where
  "pad32 command = (if length command < 32 then pad32 (command @ [0]) else command)"
  by pat_completeness auto
termination
  by (relation "measure (\<lambda>command. 32 - length command)") auto

declare pad32.simps [simp del]

definition panel_code :: "string \<Rightarrow> int" where
  "panel_code oled_side = (if oled_side = ''left'' then 0x01 else 0x02)"

definition chunk_size :: nat where
  "chunk_size = 28"

definition total_chunks :: "int list \<Rightarrow> nat" where
  "total_chunks bytes_data = (length bytes_data + chunk_size - 1) div chunk_size"

text \<open>\<open>bytes_data[start_idx:end_idx]\<close> for the chunk with index \<open>chunk_index\<close>.\<close>

definition chunk_of :: "int list \<Rightarrow> nat \<Rightarrow> int list" where
  "chunk_of bytes_data chunk_index =
     (let start_idx = chunk_index * chunk_size;
          end_idx = min (start_idx + chunk_size) (length bytes_data)
      in take (end_idx - start_idx) (drop start_idx bytes_data))"

definition chunk_command :: "int list \<Rightarrow> string \<Rightarrow> nat \<Rightarrow> int list" where
  "chunk_command bytes_data oled_side chunk_index =
     pad32 ([0x00, VIA_COMMAND_OLED, panel_code oled_side, int chunk_index]
            @ chunk_of bytes_data chunk_index)"

definition completion_command :: "string \<Rightarrow> int list" where
  "completion_command oled_side =
     [0x00, VIA_COMMAND_OLED, panel_code oled_side, 0xFF] @ replicate 28 0"

subsection \<open>The transfer\<close>

text \<open>
  The loop \<open>for chunk_index in range(total_chunks)\<close>, over the indices still to send.
  An exception leaves the loop with the device as it is then.
\<close>

fun send_chunks :: "int list \<Rightarrow> string \<Rightarrow> nat list \<Rightarrow> hid \<Rightarrow> (exn + unit) \<times> hid" where
  "send_chunks bytes_data oled_side [] d = (Inr (), d)"
| "send_chunks bytes_data oled_side (chunk_index # rest) d =
     (case to_bytes (chunk_command bytes_data oled_side chunk_index) of
        Inl e \<Rightarrow> (Inl e, d)
      | Inr command \<Rightarrow>
          (case device_write command d of
             (Inl e, d1) \<Rightarrow> (Inl e, d1)
           | (Inr u, d1) \<Rightarrow>
               (case read_with_timeout 500 d1 of
                  (None, d2) \<Rightarrow> (Inl (TimeoutError (ChunkNotAcknowledged chunk_index)), d2)
                | (Some response, d2) \<Rightarrow> send_chunks bytes_data oled_side rest d2)))"

text \<open>The body of the \<open>try\<close> block of \<open>send_to_oled\<close>, from the packed bytes on.\<close>

definition transfer :: "hid \<Rightarrow> int list \<Rightarrow> string \<Rightarrow> (exn + unit) \<times> hid" where
  "transfer d bytes_data oled_side =
     (case send_chunks bytes_data oled_side [0..<total_chunks bytes_data] d of
        (Inl e, d1) \<Rightarrow> (Inl e, d1)
      | (Inr u, d1) \<Rightarrow>
          (case to_bytes (completion_command oled_side) of
             Inl e \<Rightarrow> (Inl e, d1)
           | Inr command \<Rightarrow>
               (case device_write command d1 of
                  (Inl e, d2) \<Rightarrow> (Inl e, d2)
                | (Inr u, d2) \<Rightarrow>
                    (case read_with_timeout 500 d2 of
                       (None, d3) \<Rightarrow> (Inl (TimeoutError CompletionNotAcknowledged), d3)
                     | (Some response, d3) \<Rightarrow> (Inr (), d3)))))"

text \<open>
  \<open>send_to_oled\<close> itself: the connection check, the packing, the transfer and the two
  \<open>except\<close> clauses. The result is the returned boolean, the error dialog shown (if any)
  and the device.
\<close>

datatype dialog = NotConnected | TimedOut timeout_msg | FailedToSend exn

definition send_to_oled :: "hid option \<Rightarrow> int list \<Rightarrow> string \<Rightarrow> bool \<times> dialog option \<times> hid option" where
  "send_to_oled dev pixels oled_side =
     (case dev of
        None \<Rightarrow> (False, Some NotConnected, None)
      | Some d \<Rightarrow>
          (case transfer d (pack pixels) oled_side of
             (Inr u, d') \<Rightarrow> (True, None, Some d')
           | (Inl (TimeoutError m), d') \<Rightarrow> (False, Some (TimedOut m), Some d')
           | (Inl e, d') \<Rightarrow> (False, Some (FailedToSend e), Some d')))"

section \<open>connect_hid\<close>

text \<open>
  What \<open>hid.enumerate\<close> lists and what \<open>hid.Device(path=...)\<close> does with each entry is
  the environment's: an entry says whether its path can be opened and how the device
  behind it will answer. The application keeps the open device, the status line, the
  protocol shown in the debug line, and (for the record) the order in which handles were
  opened, probed and closed.
\<close>

record device_info =
  info_path :: string
  can_open :: bool
  write_outcomes :: "bool list"
  read_outcomes :: "poll list"

datatype event = Opened string | OpenFailed string | Handshake string | Closed string

record app =
  device :: "hid option"
  status_var :: string
  debug_var :: "int option"
  events :: "event list"

definition hid_Device :: "device_info \<Rightarrow> exn + hid" where
  "hid_Device di =
     (if can_open di
      then Inr \<lparr>hid_path = info_path di, writes = [],
                wscript = write_outcomes di, polls = read_outcomes di\<rparr>
      else Inl HIDException)"

text \<open>The application as \<open>__init__\<close> leaves it, before any connection attempt.\<close>

definition initial_app :: app where
  "initial_app = \<lparr>device = None, status_var = ''Not Connected'', debug_var = None, events = []\<rparr>"

text \<open>
  The loop \<open>for device_info in devices\<close>. The boolean says whether the loop was left by
  the \<open>return\<close> of a successful handshake.
\<close>

fun try_devices :: "device_info list \<Rightarrow> app \<Rightarrow> app \<times> bool" where
  "try_devices [] a = (a, False)"
| "try_devices (di # rest) a =
     (case hid_Device di of
        Inl e \<Rightarrow>
          try_devices rest
            (case device a of
               None \<Rightarrow> a\<lparr>events := events a @ [OpenFailed (info_path di)]\<rparr>
             | Some old \<Rightarrow>
                 a\<lparr>device := None,
                   events := events a @ [OpenFailed (info_path di), Closed (hid_path old)]\<rparr>)
      | Inr h \<Rightarrow>
          (case get_protocol_version (Some h) of
             (Some version, dev) \<Rightarrow>
               (a\<lparr>device := dev, status_var := ''Connected to Lily58'',
                  debug_var := Some version,
                  events := events a @ [Opened (info_path di), Handshake (info_path di)]\<rparr>,
                True)
           | (None, dev) \<Rightarrow>
               try_devices rest
                 (a\<lparr>device := None,
                    events := events a @ [Opened (info_path di), Handshake (info_path di)]
                              @ (case dev of None \<Rightarrow> [] | Some h' \<Rightarrow> [Closed (hid_path h')])\<rparr>)))"

text \<open>
  \<open>connect_hid\<close>: the enumeration may raise, which the outer \<open>except\<close> clause handles.
\<close>

definition connect_hid :: "exn + device_info list \<Rightarrow> app \<Rightarrow> app" where
  "connect_hid enumerated a =
     (case enumerated of
        Inl e \<Rightarrow>
          (case device a of
             None \<Rightarrow> a\<lparr>status_var := ''Connection failed''\<rparr>
           | Some old \<Rightarrow>
               a\<lparr>device := None, status_var := ''Connection failed'',
                 events := events a @ [Closed (hid_path old)]\<rparr>)
      | Inr devices \<Rightarrow>
          (case try_devices devices a of
             (a', True) \<Rightarrow> a'
           | (a', False) \<Rightarrow>
               (if device a' = None then a'\<lparr>status_var := ''Lily58 not found''\<rparr> else a')))"

section \<open>Notions used to state the properties\<close>

text \<open>
  Unpacking, as the specification words it: the reverse of the bit grouping, each byte
  giving eight pixels, bit 7 first.
\<close>

definition unpack_byte :: "int \<Rightarrow> bool list" where
  "unpack_byte b = map (\<lambda>k. bit b (7 - k)) [0..<8]"

definition unpack :: "int list \<Rightarrow> bool list" where
  "unpack bs = concat (map unpack_byte bs)"

text \<open>
  A candidate responds when its path can be opened and the version handshake on the
  opened handle yields a version.
\<close>

definition responds :: "device_info \<Rightarrow> bool" where
  "responds di =
     (case hid_Device di of
        Inl e \<Rightarrow> False
      | Inr h \<Rightarrow> fst (get_protocol_version (Some h)) \<noteq> None)"

text \<open>The paths on which a handshake was attempted, in order.\<close>

definition handshakes :: "event list \<Rightarrow> string list" where
  "handshakes es = concat (map (\<lambda>e. case e of Handshake p \<Rightarrow> [p] | _ \<Rightarrow> []) es)"

text \<open>
  What a candidate that does not respond leaves behind: no device held, and the events
  of the attempt (a candidate that opened is probed and closed; when the open raises, a
  device still held from before is closed).
\<close>

definition after_failed :: "device_info \<Rightarrow> app \<Rightarrow> app" where
  "after_failed di a =
     (if can_open di
      then a\<lparr>device := None,
             events := events a @ [Opened (info_path di), Handshake (info_path di),
                                   Closed (info_path di)]\<rparr>
      else a\<lparr>device := None,
             events := events a @ OpenFailed (info_path di)
                         # (case device a of None \<Rightarrow> [] | Some old \<Rightarrow> [Closed (hid_path old)])\<rparr>)"

text \<open>Four candidates: one that cannot be opened, a mute one, and two that answer.\<close>

definition example_candidates :: "device_info list" where
  "example_candidates =
     [\<lparr>info_path = ''hid0'', can_open = False, write_outcomes = [], read_outcomes = []\<rparr>,
      \<lparr>info_path = ''hid1'', can_open = True, write_outcomes = [], read_outcomes = []\<rparr>,
      \<lparr>info_path = ''hid2'', can_open = True, write_outcomes = [],
        read_outcomes = [Data [1, 0, 12]]\<rparr>,
      \<lparr>info_path = ''hid3'', can_open = True, write_outcomes = [],
        read_outcomes = [Data [1, 0, 9]]\<rparr>]"

text \<open>A poll is silent when it delivers no report: an empty read or a read that raises.\<close>

definition silent :: "poll \<Rightarrow> bool" where
  "silent p = (case p of Data bs \<Rightarrow> bs = [] | ReadFails \<Rightarrow> True)"


text \<open>The reports handed to the device between two states of the same handle.\<close>

definition written_by :: "hid \<Rightarrow> hid \<Rightarrow> int list list" where
  "written_by d d' = drop (length (writes d)) (writes d')"

text \<open>A freshly opened handle whose device will answer the reads as scripted.\<close>

definition example_device :: "poll list \<Rightarrow> hid" where
  "example_device answers =
     \<lparr>hid_path = ''/dev/hidraw0'', writes = [], wscript = [], polls = answers\<rparr>"

section \<open>Properties\<close>

subsection \<open>The device primitives\<close>

lemma pad32_eq: "pad32 command = command @ replicate (32 - length command) 0"
proof (induction command rule: pad32.induct)
  case (1 command)
  show ?case
  proof (cases "length command < 32")
    case True
    then have "32 - length command = Suc (32 - length (command @ [0]))" by simp
    with True 1 show ?thesis
      by (subst pad32.simps) (simp add: replicate_append_same)
  next
    case False
    then show ?thesis by (subst pad32.simps) simp
  qed
qed

lemma device_read_frame:
  "device_read n d = (r, d') \<Longrightarrow> writes d' = writes d \<and> wscript d' = wscript d \<and> hid_path d' = hid_path d"
  by (auto simp: device_read_def split: list.splits poll.splits)

lemma read_loop_frame:
  "read_loop e t d = (r, d') \<Longrightarrow> writes d' = writes d \<and> wscript d' = wscript d \<and> hid_path d' = hid_path d"
proof (induction e t d rule: read_loop.induct)
  case (1 elapsed timeout d)
  show ?case
  proof (cases "elapsed < timeout")
    case False
    with "1.prems" show ?thesis by (simp add: read_loop.simps)
  next
    case True
    obtain x d1 where dr: "device_read 32 d = (x, d1)" by (cases "device_read 32 d")
    note fr = device_read_frame[OF dr]
    show ?thesis
    proof (cases x)
      case (Inl e)
      with True dr "1.prems" have rec: "read_loop (elapsed + 10) timeout d1 = (r, d')"
        by (simp add: read_loop.simps[of elapsed])
      from "1.IH"(1)[OF True dr[symmetric] Inl rec] fr show ?thesis by simp
    next
      case (Inr resp)
      show ?thesis
      proof (cases "resp = []")
        case False
        with True Inr dr "1.prems" have "d' = d1" by (simp add: read_loop.simps[of elapsed])
        with fr show ?thesis by simp
      next
        case empty: True
        with \<open>elapsed < timeout\<close> Inr dr "1.prems"
        have rec: "read_loop (elapsed + 10) timeout d1 = (r, d')"
          by (simp add: read_loop.simps[of elapsed])
        from empty have "\<not> resp \<noteq> []" by simp
        from "1.IH"(2)[OF \<open>elapsed < timeout\<close> dr[symmetric] Inr this rec] fr
        show ?thesis by simp
      qed
    qed
  qed
qed

lemma read_loop_nonempty: "read_loop e t d = (Some r, d') \<Longrightarrow> r \<noteq> []"
proof (induction e t d rule: read_loop.induct)
  case (1 elapsed timeout d)
  then show ?case
    by (subst (asm) (3) read_loop.simps) (auto split: if_splits prod.splits sum.splits)
qed

lemma read_loop_silent:
  "list_all silent (polls d) \<Longrightarrow> fst (read_loop e t d) = None"
proof (induction e t d rule: read_loop.induct)
  case (1 elapsed timeout d)
  show ?case
  proof (cases "polls d")
    case Nil
    then have dr: "device_read 32 d = (Inr [], d)" by (simp add: device_read_def)
    show ?thesis using 1 dr Nil 
      by (subst read_loop.simps) (auto)
  next
    case (Cons p ps)
    with "1.prems" have sp: "silent p" and sps: "list_all silent ps" by simp_all
    show ?thesis using 1 Cons sp sps
      by (subst read_loop.simps) (auto simp: device_read_def silent_def split: poll.splits)
  qed
qed


lemma device_write_writes: "writes (snd (device_write r d)) = writes d @ [r]"
  by (simp add: device_write_def split: list.splits)

lemma device_write_frame:
  "device_write r d = (x, d') \<Longrightarrow> writes d' = writes d @ [r] \<and> polls d' = polls d \<and> hid_path d' = hid_path d"
  by (auto simp: device_write_def split: list.splits if_splits)

lemma read_with_timeout_frame:
  "read_with_timeout t d = (r, d') \<Longrightarrow> writes d' = writes d \<and> wscript d' = wscript d \<and> hid_path d' = hid_path d"
  unfolding read_with_timeout_def by (rule read_loop_frame)

lemma read_with_timeout_nonempty: "read_with_timeout t d = (Some r, d') \<Longrightarrow> r \<noteq> []"
  unfolding read_with_timeout_def by (rule read_loop_nonempty)

subsection \<open>Which reports a transfer writes\<close>

lemma to_bytes_Inr: "to_bytes c = Inr b \<Longrightarrow> b = c"
  by (simp add: to_bytes_def split: if_splits)

lemma send_chunks_trace:
  "send_chunks bd side idxs d = (res, d') \<Longrightarrow>
     \<exists>k\<le>length idxs. writes d' = writes d @ map (chunk_command bd side) (take k idxs)
        \<and> (res = Inr () \<longrightarrow> k = length idxs)"
proof (induction idxs arbitrary: d)
  case Nil
  then show ?case by simp
next
  case (Cons i rest)
  show ?case
  proof (cases "to_bytes (chunk_command bd side i)")
    case (Inl e)
    with Cons.prems have "d' = d" "res = Inl e" by simp_all
    then show ?thesis by (intro exI[of _ 0]) simp
  next
    case (Inr command)
    then have cmd: "command = chunk_command bd side i" by (rule to_bytes_Inr)
    obtain x d1 where w: "device_write command d = (x, d1)" by (cases "device_write command d")
    from device_write_frame[OF w] cmd have w1: "writes d1 = writes d @ [chunk_command bd side i]" by simp
    show ?thesis
    proof (cases x)
      case (Inl e)
      with Inr w Cons.prems have "d' = d1" "res = Inl e" by simp_all
      with w1 show ?thesis by (intro exI[of _ 1]) simp
    next
      case ok: (Inr u)
      obtain r d2 where rd: "read_with_timeout 500 d1 = (r, d2)" by (cases "read_with_timeout 500 d1")
      from read_with_timeout_frame[OF rd] w1 have w2: "writes d2 = writes d @ [chunk_command bd side i]" by simp
      show ?thesis
      proof (cases r)
        case None
        with Inr w ok rd Cons.prems have "d' = d2" "res = Inl (TimeoutError (ChunkNotAcknowledged i))" by simp_all
        with w2 show ?thesis by (intro exI[of _ 1]) simp
      next
        case (Some resp)
        with Inr w ok rd Cons.prems have "send_chunks bd side rest d2 = (res, d')" by simp
        from Cons.IH[OF this] obtain k where k: "k \<le> length rest"
          "writes d' = writes d2 @ map (chunk_command bd side) (take k rest)"
          "res = Inr () \<longrightarrow> k = length rest" by blast
        with w2 show ?thesis by (intro exI[of _ "Suc k"]) simp
      qed
    qed
  qed
qed

lemma chunk_of_length: "length (chunk_of bd i) \<le> 28"
  by (simp add: chunk_of_def chunk_size_def Let_def)

lemma chunk_command_length: "length (chunk_command bd side i) = 32"
  using chunk_of_length[of bd i] by (simp add: chunk_command_def pad32_eq)

lemma chunk_command_nth:
  "chunk_command bd side i ! 0 = 0"
  "chunk_command bd side i ! 1 = 0x40"
  "chunk_command bd side i ! 2 = panel_code side"
  "chunk_command bd side i ! 3 = int i"
  by (simp_all add: chunk_command_def pad32_eq VIA_COMMAND_OLED_def numeral_3_eq_3 numeral_2_eq_2)

lemma completion_command_length: "length (completion_command side) = 32"
  by (simp add: completion_command_def)

lemma completion_command_nth:
  "completion_command side ! 0 = 0"
  "completion_command side ! 2 = panel_code side"
  "completion_command side ! 3 = 0xFF"
  by (simp_all add: completion_command_def numeral_3_eq_3 numeral_2_eq_2)

lemma transfer_trace:
  "transfer d bd side = (res, d') \<Longrightarrow>
     \<exists>k\<le>total_chunks bd.
        (writes d' = writes d @ map (chunk_command bd side) [0..<k] \<and> res \<noteq> Inr ()
         \<or> k = total_chunks bd \<and>
           writes d' = writes d @ map (chunk_command bd side) [0..<k] @ [completion_command side])"
proof -
  assume t: "transfer d bd side = (res, d')"
  let ?N = "total_chunks bd"
  obtain r1 d1 where sc: "send_chunks bd side [0..<?N] d = (r1, d1)"
    by (cases "send_chunks bd side [0..<?N] d")
  from send_chunks_trace[OF sc] obtain k where k0: "k \<le> length [0..<?N]"
    "writes d1 = writes d @ map (chunk_command bd side) (take k [0..<?N])"
    "r1 = Inr () \<longrightarrow> k = length [0..<?N]" by blast
  then have k: "k \<le> ?N" "r1 = Inr () \<longrightarrow> k = ?N" by simp_all
  note k = k k0(2)
  from k(1) have tk: "take k [0..<?N] = [0..<k]" by simp
  show ?thesis
  proof (cases r1)
    case (Inl e)
    with sc t have "d' = d1" "res = Inl e" by (simp_all add: transfer_def)
    with k tk show ?thesis by (intro exI[of _ k]) simp
  next
    case (Inr u)
    with k have kN: "k = ?N" by simp
    have tb: "to_bytes (completion_command side) = Inr (completion_command side)"
      by (simp add: to_bytes_def completion_command_def panel_code_def VIA_COMMAND_OLED_def
            list_all_iff)
    obtain x d2 where w: "device_write (completion_command side) d1 = (x, d2)"
      by (cases "device_write (completion_command side) d1")
    obtain r d3 where rd: "read_with_timeout 500 d2 = (r, d3)" by (cases "read_with_timeout 500 d2")
    from device_write_frame[OF w] read_with_timeout_frame[OF rd] k tk kN
    have w2: "writes d2 = writes d @ map (chunk_command bd side) [0..<?N] @ [completion_command side]"
      and w3: "writes d3 = writes d2" by simp_all
    from t sc Inr tb w rd have "d' = d2 \<or> d' = d3"
      by (auto simp: transfer_def split: sum.splits option.splits)
    with w2 w3 show ?thesis by (intro exI[of _ ?N]) auto
  qed
qed


lemma written_by_append: "writes d' = writes d @ ws \<Longrightarrow> written_by d d' = ws"
  by (simp add: written_by_def)

lemma transfer_written:
  "transfer d bd side = (res, d') \<Longrightarrow>
     \<exists>k\<le>total_chunks bd.
        (written_by d d' = map (chunk_command bd side) [0..<k] \<and> res \<noteq> Inr ()
         \<or> k = total_chunks bd \<and>
           written_by d d' = map (chunk_command bd side) [0..<k] @ [completion_command side])"
proof -
  assume "transfer d bd side = (res, d')"
  from transfer_trace[OF this] obtain k where "k \<le> total_chunks bd"
    and "writes d' = writes d @ map (chunk_command bd side) [0..<k] \<and> res \<noteq> Inr ()
         \<or> k = total_chunks bd \<and>
           writes d' = writes d @ map (chunk_command bd side) [0..<k] @ [completion_command side]"
    by blast
  then show ?thesis
    by (intro exI[of _ k]) (auto dest: written_by_append)
qed

lemma transfer_written_set:
  assumes "transfer d bd side = (res, d')" and "r \<in> set (written_by d d')"
  shows "(\<exists>i<total_chunks bd. r = chunk_command bd side i) \<or> r = completion_command side"
proof -
  from transfer_written[OF assms(1)] obtain k where "k \<le> total_chunks bd"
    and "written_by d d' = map (chunk_command bd side) [0..<k] \<and> res \<noteq> Inr ()
         \<or> k = total_chunks bd \<and>
           written_by d d' = map (chunk_command bd side) [0..<k] @ [completion_command side]"
    by blast
  with assms(2) have "r \<in> chunk_command bd side ` {0..<k} \<or> r = completion_command side"
    by auto
  then show ?thesis
  proof
    assume "r \<in> chunk_command bd side ` {0..<k}"
    then obtain x where x: "x < k" "r = chunk_command bd side x" by auto
    with \<open>k \<le> total_chunks bd\<close> have "x < total_chunks bd" by simp
    with x(2) show ?thesis by blast
  next
    assume "r = completion_command side"
    then show ?thesis by simp
  qed
qed

lemma get_protocol_version_written:
  "\<exists>d'. snd (get_protocol_version (Some d)) = Some d' \<and>
        (written_by d d' = [version_command]) \<and> hid_path d' = hid_path d"
proof -
  have tb: "to_bytes version_command = Inr version_command"
    by (simp add: to_bytes_def version_command_def VIA_COMMAND_GET_PROTOCOL_VERSION_def list_all_iff)
  obtain x d1 where w: "device_write version_command d = (x, d1)"
    by (cases "device_write version_command d")
  obtain r d2 where rd: "read_with_timeout 1000 d1 = (r, d2)"
    by (cases "read_with_timeout 1000 d1")
  from device_write_frame[OF w] read_with_timeout_frame[OF rd]
  have "written_by d d1 = [version_command]" "written_by d d2 = [version_command]"
     "hid_path d1 = hid_path d" "hid_path d2 = hid_path d"
    by (simp_all add: written_by_def)
  with tb w rd show ?thesis
    by (auto simp: get_protocol_version_def split: sum.splits option.splits)
qed

lemma send_chunks_append:
  "send_chunks bd side (xs @ ys) d =
     (case send_chunks bd side xs d of
        (Inl e, d1) \<Rightarrow> (Inl e, d1)
      | (Inr u, d1) \<Rightarrow> send_chunks bd side ys d1)"
  by (induction xs arbitrary: d) (auto split: sum.splits prod.splits option.splits)

lemma chunk_of_bytes:
  "list_all (\<lambda>b. 0 \<le> b \<and> b < 256) bd \<Longrightarrow> list_all (\<lambda>b. 0 \<le> b \<and> b < 256) (chunk_of bd i)"
  by (auto simp: chunk_of_def Let_def list_all_iff dest!: in_set_takeD in_set_dropD)

lemma to_bytes_chunk_command:
  assumes "list_all (\<lambda>b. 0 \<le> b \<and> b < 256) bd" and "i < 256"
  shows "to_bytes (chunk_command bd side i) = Inr (chunk_command bd side i)"
  using chunk_of_bytes[OF assms(1), of i] assms(2)
  by (auto simp: to_bytes_def chunk_command_def pad32_eq VIA_COMMAND_OLED_def panel_code_def
                list_all_iff)


lemma to_bytes_completion_command:
  "to_bytes (completion_command side) = Inr (completion_command side)"
  by (simp add: to_bytes_def completion_command_def panel_code_def VIA_COMMAND_OLED_def
            list_all_iff)

lemma total_chunks_eq: "total_chunks bd = (length bd + 27) div 28"
  by (simp add: total_chunks_def chunk_size_def)



lemma upt_split: "i < n \<Longrightarrow> [0..<n] = [0..<i] @ i # [Suc i..<n]"
  by (metis le_add1 less_imp_le_nat plus_nat.add_0 upt_add_eq_append upt_conv_Cons le_add_diff_inverse)

lemma send_chunks_missing_ack:
  assumes "i < n"
      and "send_chunks bd side [0..<i] d = (Inr (), d1)"
      and "to_bytes (chunk_command bd side i) = Inr command"
      and "device_write command d1 = (Inr (), d2)"
      and "read_with_timeout 500 d2 = (None, d3)"
  shows "send_chunks bd side [0..<n] d = (Inl (TimeoutError (ChunkNotAcknowledged i)), d3)"
  using assms by (simp add: upt_split[OF assms(1)] send_chunks_append)

lemma missing_ack_general:
  assumes "list_all (\<lambda>b. 0 \<le> b \<and> b < 256) bytes_data"
      and "i < total_chunks bytes_data" and "i < 256"
      and "send_chunks bytes_data oled_side [0..<i] d = (Inr (), d1)"
      and "device_write (chunk_command bytes_data oled_side i) d1 = (Inr (), d2)"
      and "fst (read_with_timeout 500 d2) = None"
  shows "fst (transfer d bytes_data oled_side) = Inl (TimeoutError (ChunkNotAcknowledged i))
         \<and> written_by d (snd (transfer d bytes_data oled_side))
             = map (chunk_command bytes_data oled_side) [0..<Suc i]"
proof -
  obtain d3 where rd: "read_with_timeout 500 d2 = (None, d3)"
    using assms(6) by (cases "read_with_timeout 500 d2") simp
  note tb = to_bytes_chunk_command[OF assms(1,3), of oled_side]
  from send_chunks_missing_ack[OF assms(2) assms(4) tb assms(5) rd]
  have sc: "send_chunks bytes_data oled_side [0..<total_chunks bytes_data] d
              = (Inl (TimeoutError (ChunkNotAcknowledged i)), d3)" .
  then have t: "transfer d bytes_data oled_side = (Inl (TimeoutError (ChunkNotAcknowledged i)), d3)"
    by (simp add: transfer_def)
  from send_chunks_trace[OF assms(4)]
  have "writes d1 = writes d @ map (chunk_command bytes_data oled_side) [0..<i]" by auto
  with device_write_frame[OF assms(5)] read_with_timeout_frame[OF rd]
  have "written_by d d3 = map (chunk_command bytes_data oled_side) [0..<Suc i]"
    by (simp add: written_by_def)
  then show ?thesis using t by simp
qed

subsection \<open>Chunk arithmetic\<close>

lemma chunk_of_length_eq:
  "length (chunk_of bd i) = min ((i + 1) * 28) (length bd) - i * 28"
  by (simp add: chunk_of_def chunk_size_def Let_def min_def) arith





subsection \<open>Transfers to a device that acknowledges, and bitmaps with too many chunks\<close>


lemma read_with_timeout_silent:
  "list_all silent (polls d) \<Longrightarrow> fst (read_with_timeout t d) = None"
  unfolding read_with_timeout_def by (rule read_loop_silent)






subsection \<open>Packing and unpacking\<close>

lemma bit_fold_or:
  "bit (foldl (\<lambda>byte b. if c b then byte OR push_bit (7 - b) (of_bool (p b)) else byte)
          (acc :: int) bs) n
     = (bit acc n \<or> (\<exists>b\<in>set bs. c b \<and> p b \<and> n = 7 - b))"
  by (induction bs arbitrary: acc) (auto simp: bit_or_iff bit_push_bit_iff bit_of_bool_iff)

lemma bit_pack_byte:
  "bit (pack_byte pixels i) n
     = (\<exists>b<8. i + b < length pixels \<and> 0 < pixels ! (i + b) \<and> n = 7 - b)"
  unfolding pack_byte_def bit_fold_or by auto

lemma bit_pack_byte_msb_first:
  assumes "j < 8"
  shows "bit (pack_byte pixels i) (7 - j) = (i + j < length pixels \<and> 0 < pixels ! (i + j))"
proof
  assume "bit (pack_byte pixels i) (7 - j)"
  then obtain b where b: "b < 8" "i + b < length pixels" "0 < pixels ! (i + b)" "7 - j = 7 - b"
    unfolding bit_pack_byte by blast
  from b(1,4) assms have "b = j" by arith
  with b show "i + j < length pixels \<and> 0 < pixels ! (i + j)" by simp
next
  assume "i + j < length pixels \<and> 0 < pixels ! (i + j)"
  with assms show "bit (pack_byte pixels i) (7 - j)"
    unfolding bit_pack_byte by blast
qed

lemma pack_byte_range: "0 \<le> pack_byte pixels i \<and> pack_byte pixels i < 256"
proof -
  have "take_bit 8 (pack_byte pixels i) = pack_byte pixels i"
    by (rule bit_eqI) (auto simp: bit_take_bit_iff bit_pack_byte)
  moreover have "0 \<le> take_bit 8 (pack_byte pixels i)" by simp
  moreover have "take_bit 8 (pack_byte pixels i) < 2 ^ 8" by (rule take_bit_int_less_exp)
  ultimately show ?thesis by simp
qed

lemma length_pack: "length (pack pixels) = (length pixels + 7) div 8"
  by (simp add: pack_def)

lemma pack_bytes: "list_all (\<lambda>b. 0 \<le> b \<and> b < 256) (pack pixels)"
  using pack_byte_range by (simp add: pack_def list_all_iff)

lemma length_unpack: "length (unpack bs) = 8 * length bs"
  by (induction bs) (simp_all add: unpack_def unpack_byte_def del: upt_Suc)

lemma nth_unpack_byte: "k < 8 \<Longrightarrow> unpack_byte b ! k = bit b (7 - k)"
  by (simp add: unpack_byte_def)

lemma length_unpack_byte: "length (unpack_byte b) = 8"
  by (simp add: unpack_byte_def)

lemma nth_unpack:
  "m < 8 * length bs \<Longrightarrow> unpack bs ! m = bit (bs ! (m div 8)) (7 - m mod 8)"
proof (induction bs arbitrary: m)
  case Nil
  then show ?case by simp
next
  case (Cons b bs)
  have u: "unpack (b # bs) = unpack_byte b @ unpack bs" by (simp add: unpack_def)
  show ?case
  proof (cases "m < 8")
    case True
    then show ?thesis by (simp add: u length_unpack_byte nth_append nth_unpack_byte)
  next
    case False
    then obtain m' where m': "m = m' + 8" by (metis le_add_diff_inverse2 not_less)
    with Cons.prems have "m' < 8 * length bs" by simp
    from Cons.IH[OF this] show ?thesis
      by (simp add: u length_unpack_byte nth_append m')
  qed
qed

lemma ceil8: "\<lceil>real n / 8\<rceil> = int ((n + 7) div 8)"
proof (rule ceiling_unique)
  have "n \<le> 8 * ((n + 7) div 8)" by presburger
  then have "real n \<le> real (8 * ((n + 7) div 8))" by (simp only: of_nat_le_iff)
  then show "real n / 8 \<le> of_int (int ((n + 7) div 8))" by simp
  have "8 * ((n + 7) div 8) < n + 8" by presburger
  then have "real (8 * ((n + 7) div 8)) < real (n + 8)" by (simp only: of_nat_less_iff)
  then show "of_int (int ((n + 7) div 8)) - 1 < real n / 8" by simp
qed

lemma nth_unpack_pack:
  assumes "m < 8 * length (pack pixels)"
  shows "unpack (pack pixels) ! m = (m < length pixels \<and> 0 < pixels ! m)"
proof -
  from assms have k: "m div 8 < (length pixels + 7) div 8" by (simp add: length_pack)
  have "m mod 8 < 8" by simp
  from nth_unpack[OF assms] k bit_pack_byte_msb_first[OF this, of pixels "8 * (m div 8)"]
  show ?thesis by (simp add: pack_def)
qed

lemma take_unpack_pack: "take (length pixels) (unpack (pack pixels)) = map (\<lambda>p. 0 < p) pixels"
proof (rule nth_equalityI)
  have "length pixels \<le> 8 * ((length pixels + 7) div 8)" by presburger
  then show "length (take (length pixels) (unpack (pack pixels))) = length (map (\<lambda>p. 0 < p) pixels)"
    by (simp add: length_unpack length_pack)
next
  fix m assume "m < length (take (length pixels) (unpack (pack pixels)))"
  then have m: "m < length pixels" "m < 8 * length (pack pixels)"
    by (simp_all add: length_unpack)
  from nth_unpack_pack[OF m(2)] m(1)
  show "take (length pixels) (unpack (pack pixels)) ! m = map (\<lambda>p. 0 < p) pixels ! m"
    by simp
qed

lemma drop_unpack_pack:
  "drop (length pixels) (unpack (pack pixels))
     = replicate (8 * length (pack pixels) - length pixels) False"
proof (rule nth_equalityI)
  show "length (drop (length pixels) (unpack (pack pixels)))
         = length (replicate (8 * length (pack pixels) - length pixels) False)"
    by (simp add: length_unpack)
next
  fix m assume "m < length (drop (length pixels) (unpack (pack pixels)))"
  then have m: "length pixels + m < 8 * length (pack pixels)"
    by (simp add: length_unpack)
  from nth_unpack_pack[OF m] m
  show "drop (length pixels) (unpack (pack pixels)) ! m
         = replicate (8 * length (pack pixels) - length pixels) False ! m"
    by (simp add: length_unpack)
qed

lemma length_pack_ceiling: "length (pack pixels) = nat \<lceil>real (length pixels) / 8\<rceil>"
  by (simp add: ceil8 length_pack)

lemma nth_pack: "k < length (pack pixels) \<Longrightarrow> pack pixels ! k = pack_byte pixels (8 * k)"
  by (simp add: pack_def)

subsection \<open>The version query\<close>

lemma to_bytes_version_command: "to_bytes version_command = Inr version_command"
  by (simp add: to_bytes_def version_command_def VIA_COMMAND_GET_PROTOCOL_VERSION_def list_all_iff)

lemma get_protocol_version_unfold:
  "fst (get_protocol_version (Some d)) =
     (case fst (device_write version_command d) of
        Inl e \<Rightarrow> None
      | Inr u \<Rightarrow>
          (case fst (read_with_timeout 1000 (snd (device_write version_command d))) of
             None \<Rightarrow> None
           | Some response \<Rightarrow> if 3 \<le> length response then Some (response ! 2) else None))"
  by (simp add: get_protocol_version_def to_bytes_version_command
           split: prod.splits sum.splits option.splits)

subsection \<open>Discovery\<close>

lemma get_protocol_version_Some:
  "\<exists>d'. snd (get_protocol_version (Some d)) = Some d' \<and> hid_path d' = hid_path d"
  using get_protocol_version_written[of d] by blast

lemma try_devices_failed:
  assumes "\<not> responds di"
  shows "try_devices (di # rest) a = try_devices rest (after_failed di a)"
proof (cases "can_open di")
  case False
  then have "hid_Device di = Inl HIDException" by (simp add: hid_Device_def)
  then show ?thesis using False
    by (cases a) (auto simp: after_failed_def split: option.splits)
next
  case True
  let ?h = "\<lparr>hid_path = info_path di, writes = [], wscript = write_outcomes di,
             polls = read_outcomes di\<rparr>"
  from True have o: "hid_Device di = Inr ?h" by (simp add: hid_Device_def)
  obtain v dev where g: "get_protocol_version (Some ?h) = (v, dev)"
    by (cases "get_protocol_version (Some ?h)")
  with assms o have v: "v = None" by (simp add: responds_def)
  from get_protocol_version_Some[of ?h] g obtain h' where "dev = Some h'" "hid_path h' = info_path di"
    by auto
  with o g v True show ?thesis by (simp add: after_failed_def)
qed

lemma try_devices_responds:
  assumes "responds di"
  shows "\<exists>h version dev. hid_Device di = Inr h
           \<and> get_protocol_version (Some h) = (Some version, Some dev)
           \<and> hid_path dev = info_path di
           \<and> try_devices (di # rest) a =
               (a\<lparr>device := Some dev, status_var := ''Connected to Lily58'',
                  debug_var := Some version,
                  events := events a @ [Opened (info_path di), Handshake (info_path di)]\<rparr>,
                True)"
proof -
  from assms obtain h where o: "hid_Device di = Inr h"
    by (auto simp: responds_def split: sum.splits)
  then have p: "hid_path h = info_path di" by (auto simp: hid_Device_def split: if_splits)
  obtain v dev where g: "get_protocol_version (Some h) = (v, dev)"
    by (cases "get_protocol_version (Some h)")
  with assms o obtain version where v: "v = Some version" by (auto simp: responds_def)
  from get_protocol_version_Some[of h] g p obtain h' where "dev = Some h'" "hid_path h' = info_path di"
    by auto
  with o g v show ?thesis by simp
qed

lemma try_devices_earlier:
  assumes "list_all (\<lambda>x. \<not> responds x) earlier"
  shows "try_devices (earlier @ rest) a = try_devices rest (fold after_failed earlier a)"
  using assms
  by (induction earlier arbitrary: a) (simp_all add: try_devices_failed del: try_devices.simps)

lemma handshakes_append: "handshakes (xs @ ys) = handshakes xs @ handshakes ys"
  by (simp add: handshakes_def)

lemma events_after_failed:
  "\<exists>es. events (after_failed di a) = events a @ es"
  by (simp add: after_failed_def)

lemma events_fold_after_failed:
  "\<exists>es. events (fold after_failed xs a) = events a @ es"
proof (induction xs arbitrary: a)
  case Nil
  then show ?case by simp
next
  case (Cons x xs)
  from Cons.IH[of "after_failed x a"] events_after_failed[of x a] show ?case by auto
qed

lemma handshakes_after_failed:
  "handshakes (events (after_failed di a))
     = handshakes (events a) @ (if can_open di then [info_path di] else [])"
  by (auto simp: after_failed_def handshakes_def split: option.splits)

lemma handshakes_fold_after_failed:
  "handshakes (events (fold after_failed xs a))
     = handshakes (events a) @ map info_path (filter can_open xs)"
  by (induction xs arbitrary: a) (simp_all add: handshakes_after_failed)

lemma closed_fold_after_failed:
  assumes "x \<in> set xs" and "can_open x"
  shows "\<exists>l1 l2. events (fold after_failed xs a)
           = l1 @ [Opened (info_path x), Handshake (info_path x), Closed (info_path x)] @ l2"
  using assms(1)
proof (induction xs arbitrary: a)
  case Nil
  then show ?case by simp
next
  case (Cons y ys)
  show ?case
  proof (cases "x = y")
    case True
    with assms(2) have "events (after_failed y a)
        = events a @ [Opened (info_path x), Handshake (info_path x), Closed (info_path x)]"
      by (simp add: after_failed_def)
    moreover from events_fold_after_failed[of ys "after_failed y a"]
    obtain es where "events (fold after_failed ys (after_failed y a))
                       = events (after_failed y a) @ es" by blast
    ultimately have "events (fold after_failed (y # ys) a)
        = events a @ [Opened (info_path x), Handshake (info_path x), Closed (info_path x)] @ es"
      by simp
    then show ?thesis by blast
  next
    case False
    with Cons.prems have "x \<in> set ys" by simp
    from Cons.IH[OF this, of "after_failed y a"] show ?thesis by simp
  qed
qed


lemma connect_hid_first_success:
  assumes "list_all (\<lambda>x. \<not> responds x) earlier" and "responds di"
  shows "\<exists>h version dev. hid_Device di = Inr h
           \<and> get_protocol_version (Some h) = (Some version, Some dev)
           \<and> hid_path dev = info_path di
           \<and> connect_hid (Inr (earlier @ di # later)) a =
               (fold after_failed earlier a)
                 \<lparr>device := Some dev, status_var := ''Connected to Lily58'',
                  debug_var := Some version,
                  events := events (fold after_failed earlier a)
                            @ [Opened (info_path di), Handshake (info_path di)]\<rparr>"
proof -
  from try_devices_responds[OF assms(2), of later "fold after_failed earlier a"]
  obtain h version dev where r: "hid_Device di = Inr h"
      "get_protocol_version (Some h) = (Some version, Some dev)" "hid_path dev = info_path di"
      "try_devices (di # later) (fold after_failed earlier a) =
         ((fold after_failed earlier a)
            \<lparr>device := Some dev, status_var := ''Connected to Lily58'',
             debug_var := Some version,
             events := events (fold after_failed earlier a)
                       @ [Opened (info_path di), Handshake (info_path di)]\<rparr>, True)"
    by blast
  from r(4) have "connect_hid (Inr (earlier @ di # later)) a =
               (fold after_failed earlier a)
                 \<lparr>device := Some dev, status_var := ''Connected to Lily58'',
                  debug_var := Some version,
                  events := events (fold after_failed earlier a)
                            @ [Opened (info_path di), Handshake (info_path di)]\<rparr>"
    by (simp add: connect_hid_def try_devices_earlier[OF assms(1)] del: try_devices.simps)
  with r(1-3) show ?thesis by blast
qed

subsection \<open>The reports of a transfer, byte by byte\<close>

lemma chunk_command_explicit:
  "chunk_command bd side i =
     [0x00, 0x40, if side = ''left'' then 0x01 else 0x02, int i]
     @ take (min ((i + 1) * 28) (length bd) - i * 28) (drop (i * 28) bd)
     @ replicate (28 - (min ((i + 1) * 28) (length bd) - i * 28)) 0"
proof -
  have "chunk_of bd i = take (min ((i + 1) * 28) (length bd) - i * 28) (drop (i * 28) bd)"
    by (simp add: chunk_of_def chunk_size_def Let_def add.commute)
  moreover have "length (chunk_of bd i) = min ((i + 1) * 28) (length bd) - i * 28"
    by (rule chunk_of_length_eq)
  ultimately show ?thesis
    by (simp add: chunk_command_def pad32_eq VIA_COMMAND_OLED_def panel_code_def)
qed

lemma completion_command_explicit:
  "completion_command side
     = [0x00, 0x40, if side = ''left'' then 0x01 else 0x02, 0xFF] @ replicate 28 0"
  by (simp add: completion_command_def VIA_COMMAND_OLED_def panel_code_def)


subsection \<open>send_to_oled and the transfer\<close>

text \<open>
  With a device connected, \<open>send_to_oled\<close> returns \<open>True\<close> exactly when the transfer of
  the packed pixels succeeds, shows the time-out it ran into, and leaves the device as
  the transfer left it. The claims below are stated for the transfer of any packed
  bitmap.
\<close>

lemma send_to_oled_connected:
  "fst (send_to_oled (Some d) pixels oled_side)
     = (fst (transfer d (pack pixels) oled_side) = Inr ())"
  "snd (snd (send_to_oled (Some d) pixels oled_side))
     = Some (snd (transfer d (pack pixels) oled_side))"
  "fst (transfer d (pack pixels) oled_side) = Inl (TimeoutError m)
     \<Longrightarrow> fst (snd (send_to_oled (Some d) pixels oled_side)) = Some (TimedOut m)"
  by (auto simp: send_to_oled_def split: prod.splits sum.splits exn.splits)

section \<open>The claims\<close>







text \<open>
  C3. For a buffer of \<open>W*H\<close> pixels the packed length is \<open>ceil(W*H/8)\<close>; pixel \<open>j\<close> of
  group \<open>k\<close> is bit \<open>7 - j\<close> of byte \<open>k\<close> (the first pixel is the most significant bit)
  and the bits of missing pixels are zero; unpacking the packed bytes gives back the
  pixels (a pixel is on when its value is positive) followed by the zero padding, so a
  buffer of values 0 and 255, as a 1-bit image delivers them, is reproduced exactly.
\<close>

theorem pack_roundtrip:
  assumes "length pixels = W * H"
  shows "length (pack pixels) = nat \<lceil>real (W * H) / 8\<rceil>
       \<and> take (W * H) (unpack (pack pixels)) = map (\<lambda>p. 0 < p) pixels
       \<and> drop (W * H) (unpack (pack pixels))
           = replicate (8 * length (pack pixels) - W * H) False
       \<and> (\<forall>k<length (pack pixels). \<forall>j<8.
             bit (pack pixels ! k) (7 - j) = (8 * k + j < W * H \<and> 0 < pixels ! (8 * k + j)))
       \<and> list_all (\<lambda>b. 0 \<le> b \<and> b < 256) (pack pixels)
       \<and> (list_all (\<lambda>p. p = 0 \<or> p = 255) pixels \<longrightarrow>
            map (\<lambda>b. if b then 255 else 0) (take (W * H) (unpack (pack pixels))) = pixels)"
proof (intro conjI allI impI)
  show "length (pack pixels) = nat \<lceil>real (W * H) / 8\<rceil>"
    using length_pack_ceiling[of pixels] assms by simp
  show t: "take (W * H) (unpack (pack pixels)) = map (\<lambda>p. 0 < p) pixels"
    using take_unpack_pack[of pixels] assms by simp
  show "drop (W * H) (unpack (pack pixels)) = replicate (8 * length (pack pixels) - W * H) False"
    using drop_unpack_pack[of pixels] assms by simp
  show "bit (pack pixels ! k) (7 - j) = (8 * k + j < W * H \<and> 0 < pixels ! (8 * k + j))"
    if "k < length (pack pixels)" "j < 8" for k j
    using that assms by (simp add: nth_pack bit_pack_byte_msb_first)
  show "list_all (\<lambda>b. 0 \<le> b \<and> b < 256) (pack pixels)" by (rule pack_bytes)
  show "map (\<lambda>b. if b then 255 else 0) (take (W * H) (unpack (pack pixels))) = pixels"
    if "list_all (\<lambda>p. p = 0 \<or> p = 255) pixels"
  proof -
    from that have "map (\<lambda>p. if 0 < p then 255 else 0) pixels = pixels"
      by (intro map_idI) (auto simp: list_all_iff)
    then show ?thesis by (simp add: t comp_def)
  qed
qed

theorem pack_roundtrip_witness:
  "length [255, 0, 0, 255, 0, 0, 0, 0, 255, 255 :: int] = 5 * 2
   \<and> pack [255, 0, 0, 255, 0, 0, 0, 0, 255, 255 :: int] = [0x90, 0xC0]
   \<and> length (pack [255, 0, 0, 255, 0, 0, 0, 0, 255, 255 :: int]) = nat \<lceil>real (5 * 2) / 8\<rceil>
   \<and> take (5 * 2) (unpack (pack [255, 0, 0, 255, 0, 0, 0, 0, 255, 255 :: int]))
       = map (\<lambda>p. 0 < p) [255, 0, 0, 255, 0, 0, 0, 0, 255, 255 :: int]
   \<and> map (\<lambda>b. if b then 255 else 0)
         (take (5 * 2) (unpack (pack [255, 0, 0, 255, 0, 0, 0, 0, 255, 255 :: int])))
       = [255, 0, 0, 255, 0, 0, 0, 0, 255, 255 :: int]"
proof -
  have h: "length [255, 0, 0, 255, 0, 0, 0, 0, 255, 255 :: int] = 5 * 2" by simp
  have p: "pack [255, 0, 0, 255, 0, 0, 0, 0, 255, 255 :: int] = [0x90, 0xC0]" by code_simp
  have b: "list_all (\<lambda>p. p = 0 \<or> p = 255) [255, 0, 0, 255, 0, 0, 0, 0, 255, 255 :: int]" by simp
  from pack_roundtrip[OF h] h p b show ?thesis by blast
qed

text \<open>
  C4. Every report written to the device, version query, data chunk or completion, is
  exactly 32 bytes long and starts with the report ID 0x00; a data chunk report is its
  four header bytes and its chunk followed by zeros up to 32 bytes.
\<close>

theorem reports_are_32_bytes:
  "list_all (\<lambda>report. length report = 32 \<and> report ! 0 = 0x00)
     (written_by d (snd (transfer d bytes_data oled_side)))
   \<and> (\<exists>d'. snd (get_protocol_version (Some d)) = Some d' \<and>
          list_all (\<lambda>report. length report = 32 \<and> report ! 0 = 0x00) (written_by d d'))
   \<and> chunk_command bytes_data oled_side i =
        [0x00, 0x40, panel_code oled_side, int i] @ chunk_of bytes_data i
        @ replicate (28 - length (chunk_of bytes_data i)) 0"
proof (intro conjI)
  obtain res d' where t: "transfer d bytes_data oled_side = (res, d')"
    by (cases "transfer d bytes_data oled_side")
  have "length r = 32 \<and> r ! 0 = 0" if "r \<in> set (written_by d d')" for r
    using transfer_written_set[OF t that]
    by (auto simp: chunk_command_nth chunk_command_length completion_command_nth
                   completion_command_length)
  with t show "list_all (\<lambda>report. length report = 32 \<and> report ! 0 = 0x00)
     (written_by d (snd (transfer d bytes_data oled_side)))"
    by (simp add: list_all_iff)
next
  have "length version_command = 32 \<and> version_command ! 0 = 0"
    by (simp add: version_command_def)
  with get_protocol_version_written[of d]
  show "\<exists>d'. snd (get_protocol_version (Some d)) = Some d' \<and>
          list_all (\<lambda>report. length report = 32 \<and> report ! 0 = 0x00) (written_by d d')"
    by auto
next
  show "chunk_command bytes_data oled_side i =
        [0x00, 0x40, panel_code oled_side, int i] @ chunk_of bytes_data i
        @ replicate (28 - length (chunk_of bytes_data i)) 0"
    by (simp add: chunk_command_def pad32_eq VIA_COMMAND_OLED_def)
qed


theorem reports_are_32_bytes_witness:
  "list_all (\<lambda>report. length report = 32 \<and> report ! 0 = 0x00)
     (written_by (example_device [Data [1], Data [1]])
        (snd (transfer (example_device [Data [1], Data [1]]) [1, 2, 3] ''left'')))
   \<and> written_by (example_device [Data [1], Data [1]])
        (snd (transfer (example_device [Data [1], Data [1]]) [1, 2, 3] ''left'')) =
       [[0, 64, 1, 0, 1, 2, 3, 0, 0, 0, 0, 0, 0, 0, 0, 0, 0, 0, 0, 0, 0,
         0, 0, 0, 0, 0, 0, 0, 0, 0, 0, 0],
        [0, 64, 1, 255, 0, 0, 0, 0, 0, 0, 0, 0, 0, 0, 0, 0, 0, 0, 0, 0, 0,
         0, 0, 0, 0, 0, 0, 0, 0, 0, 0, 0]]"
proof -
  have "list_all (\<lambda>report. length report = 32 \<and> report ! 0 = 0x00)
     (written_by (example_device [Data [1], Data [1]])
        (snd (transfer (example_device [Data [1], Data [1]]) [1, 2, 3] ''left'')))"
    using reports_are_32_bytes[of "example_device [Data [1], Data [1]]" "[1, 2, 3]" "''left''" 0]
    by (rule conjunct1)
  moreover have "written_by (example_device [Data [1], Data [1]])
        (snd (transfer (example_device [Data [1], Data [1]]) [1, 2, 3] ''left'')) =
       [[0, 64, 1, 0, 1, 2, 3, 0, 0, 0, 0, 0, 0, 0, 0, 0, 0, 0, 0, 0, 0,
         0, 0, 0, 0, 0, 0, 0, 0, 0, 0, 0],
        [0, 64, 1, 255, 0, 0, 0, 0, 0, 0, 0, 0, 0, 0, 0, 0, 0, 0, 0, 0, 0,
         0, 0, 0, 0, 0, 0, 0, 0, 0, 0, 0]]"
    by code_simp
  ultimately show ?thesis by (rule conjI)
qed

text \<open>
  C5. When the chunk count is at most 255, the reports of a transfer are data chunk
  reports for the indices \<open>0..<k\<close>, in order, followed by at most one completion
  report (and by exactly one when the transfer succeeds); byte 3 of a data chunk report
  is its index and never 0xFF, byte 3 of the completion report is 0xFF.
\<close>

theorem sentinel_distinct:
  assumes "total_chunks bytes_data \<le> 255"
  shows "\<exists>k\<le>total_chunks bytes_data.
           (written_by d (snd (transfer d bytes_data oled_side))
              = map (chunk_command bytes_data oled_side) [0..<k]
            \<or> written_by d (snd (transfer d bytes_data oled_side))
              = map (chunk_command bytes_data oled_side) [0..<k] @ [completion_command oled_side])
           \<and> (fst (transfer d bytes_data oled_side) = Inr () \<longrightarrow>
                written_by d (snd (transfer d bytes_data oled_side))
                  = map (chunk_command bytes_data oled_side) [0..<total_chunks bytes_data]
                    @ [completion_command oled_side])
           \<and> (\<forall>i<k. chunk_command bytes_data oled_side i ! 3 \<noteq> 0xFF)
           \<and> completion_command oled_side ! 3 = 0xFF"
proof -
  obtain res d' where t: "transfer d bytes_data oled_side = (res, d')"
    by (cases "transfer d bytes_data oled_side")
  from transfer_written[OF t] obtain k where k: "k \<le> total_chunks bytes_data"
    and w: "written_by d d' = map (chunk_command bytes_data oled_side) [0..<k] \<and> res \<noteq> Inr ()
         \<or> k = total_chunks bytes_data \<and>
           written_by d d' = map (chunk_command bytes_data oled_side) [0..<k]
                             @ [completion_command oled_side]"
    by blast
  have "chunk_command bytes_data oled_side i ! 3 \<noteq> 0xFF" if "i < k" for i
    using that k assms(1) by (simp add: chunk_command_nth)
  with k w t show ?thesis
    by (intro exI[of _ k]) (auto simp: completion_command_nth)
qed

theorem sentinel_distinct_witness:
  "total_chunks [1, 2, 3] \<le> 255
   \<and> (\<exists>k\<le>total_chunks [1, 2, 3].
           (written_by (example_device [Data [1]])
                (snd (transfer (example_device [Data [1]]) [1, 2, 3] ''left''))
              = map (chunk_command [1, 2, 3] ''left'') [0..<k]
            \<or> written_by (example_device [Data [1]])
                (snd (transfer (example_device [Data [1]]) [1, 2, 3] ''left''))
              = map (chunk_command [1, 2, 3] ''left'') [0..<k] @ [completion_command ''left''])
           \<and> (fst (transfer (example_device [Data [1]]) [1, 2, 3] ''left'') = Inr () \<longrightarrow>
                written_by (example_device [Data [1]])
                  (snd (transfer (example_device [Data [1]]) [1, 2, 3] ''left''))
                  = map (chunk_command [1, 2, 3] ''left'') [0..<total_chunks [1, 2, 3]]
                    @ [completion_command ''left''])
           \<and> (\<forall>i<k. chunk_command [1, 2, 3] ''left'' i ! 3 \<noteq> 0xFF)
           \<and> completion_command ''left'' ! 3 = 0xFF)"
proof -
  have h1: "total_chunks [1, 2, 3] \<le> 255" by code_simp
  from h1 sentinel_distinct[OF h1] show ?thesis by (rule conjI)
qed

text \<open>
  C6. When the candidates before \<open>di\<close> do not answer the version handshake and \<open>di\<close>
  does, \<open>connect_hid\<close> ends holding the handle opened on \<open>di\<close>'s path, with the version
  it reported; the candidates after \<open>di\<close> play no part (the result is the same without
  them, and the handshakes made are those on the earlier candidates that opened and on
  \<open>di\<close>, in order); every earlier candidate that opened was closed right after its
  handshake, before anything else happened; and the last things done were opening \<open>di\<close>
  and its handshake, so its handle was not closed.
\<close>

theorem first_success_wins:
  assumes "list_all (\<lambda>x. \<not> responds x) earlier" and "responds di"
  shows "(\<exists>h version dev. hid_Device di = Inr h
            \<and> get_protocol_version (Some h) = (Some version, Some dev)
            \<and> device (connect_hid (Inr (earlier @ di # later)) a) = Some dev
            \<and> hid_path dev = info_path di
            \<and> debug_var (connect_hid (Inr (earlier @ di # later)) a) = Some version)
       \<and> connect_hid (Inr (earlier @ di # later)) a = connect_hid (Inr (earlier @ [di])) a
       \<and> handshakes (events (connect_hid (Inr (earlier @ di # later)) a))
           = handshakes (events a) @ map info_path (filter can_open earlier) @ [info_path di]
       \<and> (\<forall>x\<in>set earlier. can_open x \<longrightarrow>
             (\<exists>l1 l2. events (connect_hid (Inr (earlier @ di # later)) a)
                 = l1 @ [Opened (info_path x), Handshake (info_path x), Closed (info_path x)]
                   @ l2))
       \<and> (\<exists>l. events (connect_hid (Inr (earlier @ di # later)) a)
                 = l @ [Opened (info_path di), Handshake (info_path di)])"
proof -
  let ?b = "fold after_failed earlier a"
  from connect_hid_first_success[OF assms, of later a]
  obtain h version dev where r: "hid_Device di = Inr h"
      "get_protocol_version (Some h) = (Some version, Some dev)" "hid_path dev = info_path di"
    and c: "connect_hid (Inr (earlier @ di # later)) a =
               ?b\<lparr>device := Some dev, status_var := ''Connected to Lily58'',
                  debug_var := Some version,
                  events := events ?b @ [Opened (info_path di), Handshake (info_path di)]\<rparr>"
    by blast
  from connect_hid_first_success[OF assms, of "[]" a] r(1,2)
  have c': "connect_hid (Inr (earlier @ [di])) a =
               ?b\<lparr>device := Some dev, status_var := ''Connected to Lily58'',
                  debug_var := Some version,
                  events := events ?b @ [Opened (info_path di), Handshake (info_path di)]\<rparr>"
    by auto
  have ev: "events (connect_hid (Inr (earlier @ di # later)) a)
              = events ?b @ [Opened (info_path di), Handshake (info_path di)]"
    by (simp add: c)
  have 1: "\<exists>h version dev. hid_Device di = Inr h
            \<and> get_protocol_version (Some h) = (Some version, Some dev)
            \<and> device (connect_hid (Inr (earlier @ di # later)) a) = Some dev
            \<and> hid_path dev = info_path di
            \<and> debug_var (connect_hid (Inr (earlier @ di # later)) a) = Some version"
    using r by (intro exI[of _ h] exI[of _ version] exI[of _ dev]) (simp add: c)
  have 2: "connect_hid (Inr (earlier @ di # later)) a = connect_hid (Inr (earlier @ [di])) a"
    by (simp only: c c')
  have 3: "handshakes (events (connect_hid (Inr (earlier @ di # later)) a))
           = handshakes (events a) @ map info_path (filter can_open earlier) @ [info_path di]"
    by (simp add: ev handshakes_append handshakes_fold_after_failed) (simp add: handshakes_def)
  have 4: "\<exists>l1 l2. events (connect_hid (Inr (earlier @ di # later)) a)
                 = l1 @ [Opened (info_path x), Handshake (info_path x), Closed (info_path x)]
                   @ l2" if "x \<in> set earlier" "can_open x" for x
  proof -
    from closed_fold_after_failed[OF that, of a] obtain l1 l2 where
      "events ?b = l1 @ [Opened (info_path x), Handshake (info_path x), Closed (info_path x)] @ l2"
      by blast
    then have "events (connect_hid (Inr (earlier @ di # later)) a)
         = l1 @ [Opened (info_path x), Handshake (info_path x), Closed (info_path x)]
           @ (l2 @ [Opened (info_path di), Handshake (info_path di)])"
      by (simp add: ev)
    then show ?thesis by blast
  qed
  have 5: "\<exists>l. events (connect_hid (Inr (earlier @ di # later)) a)
                 = l @ [Opened (info_path di), Handshake (info_path di)]"
    using ev by blast
  from 1 2 3 4 5 show ?thesis by blast
qed


theorem first_success_wins_witness:
  "list_all (\<lambda>x. \<not> responds x) (take 2 example_candidates)
   \<and> responds (example_candidates ! 2)
   \<and> events (connect_hid (Inr (take 2 example_candidates @ example_candidates ! 2
                                 # drop 3 example_candidates)) initial_app)
       = [OpenFailed ''hid0'', Opened ''hid1'', Handshake ''hid1'', Closed ''hid1'',
          Opened ''hid2'', Handshake ''hid2'']
   \<and> handshakes (events (connect_hid (Inr (take 2 example_candidates @ example_candidates ! 2
                                 # drop 3 example_candidates)) initial_app))
       = handshakes (events initial_app) @ map info_path (filter can_open (take 2 example_candidates))
         @ [info_path (example_candidates ! 2)]
   \<and> connect_hid (Inr (take 2 example_candidates @ example_candidates ! 2
                                 # drop 3 example_candidates)) initial_app
       = connect_hid (Inr (take 2 example_candidates @ [example_candidates ! 2])) initial_app"
proof -
  have h1: "list_all (\<lambda>x. \<not> responds x) (take 2 example_candidates)" by code_simp
  have h2: "responds (example_candidates ! 2)" by code_simp
  have e: "events (connect_hid (Inr (take 2 example_candidates @ example_candidates ! 2
                                 # drop 3 example_candidates)) initial_app)
       = [OpenFailed ''hid0'', Opened ''hid1'', Handshake ''hid1'', Closed ''hid1'',
          Opened ''hid2'', Handshake ''hid2'']" by code_simp
  from first_success_wins[OF h1 h2, of "drop 3 example_candidates" initial_app] h1 h2 e
  show ?thesis by blast
qed

text \<open>
  C7. A transfer of a non-empty packed bitmap whose chunk 0 is written but not answered
  within the 0.5 second timeout fails with the time-out error of chunk 0, and chunk 0 is
  the only report written. In general: when the chunks before chunk \<open>i\<close> were written
  and acknowledged, chunk \<open>i\<close> is written and no answer to it is read within the timeout,
  the transfer fails with the time-out error of chunk \<open>i\<close> and nothing is written after
  chunk \<open>i\<close>: no later chunk and no completion report.
\<close>

theorem missing_ack_aborts:
  assumes "list_all (\<lambda>b. 0 \<le> b \<and> b < 256) bytes_data"
  shows "(bytes_data \<noteq> []
          \<and> fst (device_write (chunk_command bytes_data oled_side 0) d) = Inr ()
          \<and> fst (read_with_timeout 500
                   (snd (device_write (chunk_command bytes_data oled_side 0) d))) = None
          \<longrightarrow> fst (transfer d bytes_data oled_side)
                = Inl (TimeoutError (ChunkNotAcknowledged 0))
              \<and> written_by d (snd (transfer d bytes_data oled_side))
                = [chunk_command bytes_data oled_side 0])
       \<and> (i < total_chunks bytes_data \<and> i < 256
          \<and> send_chunks bytes_data oled_side [0..<i] d = (Inr (), d1)
          \<and> device_write (chunk_command bytes_data oled_side i) d1 = (Inr (), d2)
          \<and> fst (read_with_timeout 500 d2) = None
          \<longrightarrow> fst (transfer d bytes_data oled_side)
                = Inl (TimeoutError (ChunkNotAcknowledged i))
              \<and> written_by d (snd (transfer d bytes_data oled_side))
                = map (chunk_command bytes_data oled_side) [0..<Suc i])"
proof (intro conjI impI)
  assume a: "bytes_data \<noteq> []
          \<and> fst (device_write (chunk_command bytes_data oled_side 0) d) = Inr ()
          \<and> fst (read_with_timeout 500
                   (snd (device_write (chunk_command bytes_data oled_side 0) d))) = None"
  then have n: "0 < total_chunks bytes_data"
    by (cases bytes_data) (simp_all add: total_chunks_eq)
  from a obtain d2 where w: "device_write (chunk_command bytes_data oled_side 0) d = (Inr (), d2)"
    by (cases "device_write (chunk_command bytes_data oled_side 0) d") auto
  with a have r: "fst (read_with_timeout 500 d2) = None" by simp
  have s: "send_chunks bytes_data oled_side [0..<0] d = (Inr (), d)" by simp
  from missing_ack_general[OF assms n _ s w r]
  show "fst (transfer d bytes_data oled_side) = Inl (TimeoutError (ChunkNotAcknowledged 0))"
    and "written_by d (snd (transfer d bytes_data oled_side)) = [chunk_command bytes_data oled_side 0]"
    by simp_all
next
  assume b: "i < total_chunks bytes_data \<and> i < 256
          \<and> send_chunks bytes_data oled_side [0..<i] d = (Inr (), d1)
          \<and> device_write (chunk_command bytes_data oled_side i) d1 = (Inr (), d2)
          \<and> fst (read_with_timeout 500 d2) = None"
  then have "fst (transfer d bytes_data oled_side) = Inl (TimeoutError (ChunkNotAcknowledged i))
         \<and> written_by d (snd (transfer d bytes_data oled_side))
             = map (chunk_command bytes_data oled_side) [0..<Suc i]"
    using missing_ack_general[OF assms, of i oled_side d d1 d2] by blast
  then show "fst (transfer d bytes_data oled_side) = Inl (TimeoutError (ChunkNotAcknowledged i))"
    and "written_by d (snd (transfer d bytes_data oled_side))
             = map (chunk_command bytes_data oled_side) [0..<Suc i]"
    by simp_all
qed

theorem missing_ack_aborts_witness:
  "fst (transfer (example_device []) [1, 2, 3] ''left'')
     = Inl (TimeoutError (ChunkNotAcknowledged 0))
   \<and> written_by (example_device []) (snd (transfer (example_device []) [1, 2, 3] ''left''))
     = [chunk_command [1, 2, 3] ''left'' 0]
   \<and> fst (transfer (example_device [Data [1]]) (replicate 29 7) ''left'')
     = Inl (TimeoutError (ChunkNotAcknowledged 1))
   \<and> written_by (example_device [Data [1]])
        (snd (transfer (example_device [Data [1]]) (replicate 29 7) ''left''))
     = map (chunk_command (replicate 29 7) ''left'') [0..<Suc 1]"
proof -
  have bytes: "list_all (\<lambda>b. 0 \<le> b \<and> b < 256) [1, 2, 3 :: int]" by simp
  have a: "[1, 2, 3 :: int] \<noteq> []
          \<and> fst (device_write (chunk_command [1, 2, 3] ''left'' 0) (example_device [])) = Inr ()
          \<and> fst (read_with_timeout 500
                   (snd (device_write (chunk_command [1, 2, 3] ''left'' 0) (example_device []))))
              = None"
    by code_simp
  have bytes': "list_all (\<lambda>b. 0 \<le> b \<and> b < 256) (replicate 29 (7 :: int))" by code_simp
  have b: "1 < total_chunks (replicate 29 7) \<and> (1 :: nat) < 256
          \<and> send_chunks (replicate 29 7) ''left'' [0..<1] (example_device [Data [1]])
              = (Inr (), \<lparr>hid_path = ''/dev/hidraw0'',
                          writes = [chunk_command (replicate 29 7) ''left'' 0],
                          wscript = [], polls = []\<rparr>)
          \<and> device_write (chunk_command (replicate 29 7) ''left'' 1)
                \<lparr>hid_path = ''/dev/hidraw0'',
                  writes = [chunk_command (replicate 29 7) ''left'' 0],
                  wscript = [], polls = []\<rparr>
              = (Inr (), \<lparr>hid_path = ''/dev/hidraw0'',
                          writes = [chunk_command (replicate 29 7) ''left'' 0,
                                    chunk_command (replicate 29 7) ''left'' 1],
                          wscript = [], polls = []\<rparr>)
          \<and> fst (read_with_timeout 500
                 \<lparr>hid_path = ''/dev/hidraw0'',
                          writes = [chunk_command (replicate 29 7) ''left'' 0,
                                    chunk_command (replicate 29 7) ''left'' 1],
                          wscript = [], polls = []\<rparr>) = None"
    by code_simp
  from missing_ack_aborts[OF bytes, of "''left''" "example_device []", THEN conjunct1, rule_format, OF a]
       missing_ack_aborts[OF bytes', THEN conjunct2, rule_format, OF b]
  show ?thesis by simp
qed

text \<open>
  C8. For a zero-length packed bitmap the chunk count is 0 and the only report handed to
  the device is the completion report, once; the transfer succeeds exactly when that
  write is accepted and a response to it is read within the 0.5 second timeout.
\<close>

theorem empty_bitmap_transfer:
  "total_chunks [] = 0
   \<and> written_by d (snd (transfer d [] oled_side)) = [completion_command oled_side]
   \<and> (fst (transfer d [] oled_side) = Inr () \<longleftrightarrow>
        fst (device_write (completion_command oled_side) d) = Inr ()
        \<and> fst (read_with_timeout 500 (snd (device_write (completion_command oled_side) d)))
            \<noteq> None)"
proof -
  obtain x d2 where w: "device_write (completion_command oled_side) d = (x, d2)"
    by (cases "device_write (completion_command oled_side) d")
  obtain r d3 where rd: "read_with_timeout 500 d2 = (r, d3)"
    by (cases "read_with_timeout 500 d2")
  from device_write_frame[OF w] read_with_timeout_frame[OF rd]
  have "written_by d d2 = [completion_command oled_side]"
       "written_by d d3 = [completion_command oled_side]"
    by (simp_all add: written_by_def)
  with w rd show ?thesis
    by (auto simp: transfer_def total_chunks_eq to_bytes_completion_command
             split: sum.splits option.splits)
qed


theorem empty_bitmap_transfer_witness:
  "transfer (example_device [Data [7]]) [] ''right'' =
     (Inr (), \<lparr>hid_path = ''/dev/hidraw0'',
               writes = [[0, 64, 2, 255, 0, 0, 0, 0, 0, 0, 0, 0, 0, 0, 0, 0, 0, 0, 0, 0, 0,
                          0, 0, 0, 0, 0, 0, 0, 0, 0, 0, 0]],
               wscript = [], polls = []\<rparr>)
   \<and> fst (transfer (example_device []) [] ''right'')
       = Inl (TimeoutError CompletionNotAcknowledged)
   \<and> written_by (example_device []) (snd (transfer (example_device []) [] ''right''))
       = [completion_command ''right'']"
proof -
  have "transfer (example_device [Data [7]]) [] ''right'' =
     (Inr (), \<lparr>hid_path = ''/dev/hidraw0'',
               writes = [[0, 64, 2, 255, 0, 0, 0, 0, 0, 0, 0, 0, 0, 0, 0, 0, 0, 0, 0, 0, 0,
                          0, 0, 0, 0, 0, 0, 0, 0, 0, 0, 0]],
               wscript = [], polls = []\<rparr>)"
    by code_simp
  moreover have "fst (transfer (example_device []) [] ''right'')
       = Inl (TimeoutError CompletionNotAcknowledged)"
    by code_simp
  moreover have "written_by (example_device []) (snd (transfer (example_device []) [] ''right''))
       = [completion_command ''right'']"
    using empty_bitmap_transfer[of "example_device []" "''right''"] by simp
  ultimately show ?thesis by simp
qed

text \<open>
  C9. \<open>get_protocol_version\<close> returns a version exactly when the query was written and
  \<open>read_with_timeout\<close>, with its 1 second timeout, returned a response of at least 3
  bytes, and the version is byte 2 of that response. A write that raises, a timeout and a
  shorter response give \<open>None\<close>; nothing is raised (the result is an option, and every
  \<open>except\<close> branch returns \<open>None\<close>). A read that raises inside the polling loop is
  polled again, so it does not by itself decide the result.
\<close>

theorem get_protocol_version_result:
  "(fst (get_protocol_version (Some d)) = Some version \<longleftrightarrow>
      fst (device_write version_command d) = Inr ()
      \<and> (\<exists>response.
            fst (read_with_timeout 1000 (snd (device_write version_command d))) = Some response
            \<and> 3 \<le> length response \<and> version = response ! 2))
   \<and> (fst (device_write version_command d) \<noteq> Inr () \<longrightarrow>
        fst (get_protocol_version (Some d)) = None)
   \<and> (fst (read_with_timeout 1000 (snd (device_write version_command d))) = None \<longrightarrow>
        fst (get_protocol_version (Some d)) = None)
   \<and> (\<forall>response.
         fst (read_with_timeout 1000 (snd (device_write version_command d))) = Some response
         \<and> length response < 3 \<longrightarrow> fst (get_protocol_version (Some d)) = None)
   \<and> fst (get_protocol_version None) = None
   \<and> version_command = 0x00 # 0x01 # replicate 30 0"
proof (intro conjI allI impI)
  show "fst (get_protocol_version (Some d)) = Some version \<longleftrightarrow>
      fst (device_write version_command d) = Inr ()
      \<and> (\<exists>response.
            fst (read_with_timeout 1000 (snd (device_write version_command d))) = Some response
            \<and> 3 \<le> length response \<and> version = response ! 2)"
    by (auto simp: get_protocol_version_unfold split: sum.splits option.splits)
  show "fst (get_protocol_version (Some d)) = None"
    if "fst (device_write version_command d) \<noteq> Inr ()"
    using that by (auto simp: get_protocol_version_unfold split: sum.splits)
  show "fst (get_protocol_version (Some d)) = None"
    if "fst (read_with_timeout 1000 (snd (device_write version_command d))) = None"
    using that by (simp add: get_protocol_version_unfold split: sum.splits)
  show "fst (get_protocol_version (Some d)) = None"
    if "fst (read_with_timeout 1000 (snd (device_write version_command d))) = Some response
         \<and> length response < 3" for response
    using that by (simp add: get_protocol_version_unfold split: sum.splits)
  show "fst (get_protocol_version None) = None"
    by (simp add: get_protocol_version_def)
  show "version_command = 0x00 # 0x01 # replicate 30 0"
    by (simp add: version_command_def VIA_COMMAND_GET_PROTOCOL_VERSION_def)
qed

theorem get_protocol_version_result_witness:
  "fst (get_protocol_version (Some (example_device [ReadFails, Data [], Data [1, 0, 12, 0]])))
     = Some 12
   \<and> fst (get_protocol_version (Some ((example_device [])\<lparr>wscript := [False]\<rparr>))) = None
   \<and> fst (get_protocol_version (Some (example_device []))) = None
   \<and> fst (get_protocol_version (Some (example_device [Data [1, 12]]))) = None"
proof -
  let ?d1 = "example_device [ReadFails, Data [], Data [1, 0, 12, 0]]"
  have w1: "fst (device_write version_command ?d1) = Inr ()" by code_simp
  have r1: "fst (read_with_timeout 1000 (snd (device_write version_command ?d1)))
              = Some [1, 0, 12, 0]" by code_simp
  have "fst (get_protocol_version (Some ?d1)) = Some ([1, 0, 12, 0] ! 2)"
    using get_protocol_version_result[of ?d1 "[1, 0, 12, 0] ! 2", THEN conjunct1] w1 r1
    by simp
  then have a: "fst (get_protocol_version (Some ?d1)) = Some 12" by simp
  let ?d2 = "(example_device [])\<lparr>wscript := [False]\<rparr>"
  have w2: "fst (device_write version_command ?d2) \<noteq> Inr ()" by code_simp
  have b: "fst (get_protocol_version (Some ?d2)) = None"
    using get_protocol_version_result[of ?d2 0] w2 by blast
  let ?d3 = "example_device []"
  have r3: "fst (read_with_timeout 1000 (snd (device_write version_command ?d3))) = None"
    by code_simp
  have c: "fst (get_protocol_version (Some ?d3)) = None"
    using get_protocol_version_result[of ?d3 0] r3 by blast
  let ?d4 = "example_device [Data [1, 12]]"
  have r4: "fst (read_with_timeout 1000 (snd (device_write version_command ?d4))) = Some [1, 12]
            \<and> length [1, 12 :: int] < 3"
    by code_simp
  have e: "fst (get_protocol_version (Some ?d4)) = None"
    using get_protocol_version_result[of ?d4 0] r4 by blast
  from a b c e show ?thesis by simp
qed

text \<open>
  C10. The panel selector, byte 2 of every report a transfer writes, is 0x01 when the
  panel argument is the string "left" and 0x02 for every other string; nothing validates
  the argument.
\<close>

theorem panel_selector_byte:
  "list_all (\<lambda>report. report ! 2 = (if oled_side = ''left'' then 0x01 else 0x02))
     (written_by d (snd (transfer d bytes_data oled_side)))"
proof -
  obtain res d' where t: "transfer d bytes_data oled_side = (res, d')"
    by (cases "transfer d bytes_data oled_side")
  have "r ! 2 = panel_code oled_side" if "r \<in> set (written_by d d')" for r
    using transfer_written_set[OF t that]
    by (auto simp: chunk_command_nth completion_command_nth)
  with t show ?thesis by (simp add: list_all_iff panel_code_def)
qed

theorem panel_selector_byte_witness:
  "written_by (example_device [Data [1], Data [1]]) (snd (transfer (example_device [Data [1], Data [1]]) [255] ''lfet'')) =
     [[0, 64, 2, 0, 255, 0, 0, 0, 0, 0, 0, 0, 0, 0, 0, 0, 0, 0, 0, 0, 0,
         0, 0, 0, 0, 0, 0, 0, 0, 0, 0, 0],
        [0, 64, 2, 255, 0, 0, 0, 0, 0, 0, 0, 0, 0, 0, 0, 0, 0, 0, 0, 0, 0,
         0, 0, 0, 0, 0, 0, 0, 0, 0, 0, 0]]
   \<and> list_all (\<lambda>report. report ! 2 = 0x02) (written_by (example_device [Data [1], Data [1]]) (snd (transfer (example_device [Data [1], Data [1]]) [255] ''lfet'')))"
  using panel_selector_byte[of "''lfet''" "example_device [Data [1], Data [1]]" "[255]"] by code_simp

end
